theory Spec2Isabelle
  imports Main
begin

text \<open>
  A shallow embedding of SyncSentinel's parsing and reconciliation core:
  \<open>src/syncsentinel/parser.py\<close> (\<open>parse_sync_log\<close>, \<open>append_to_csv\<close>,
  \<open>get_file_type\<close>, \<open>extract_unique_files\<close>) and \<open>src/syncsentinel/handler.py\<close>
  (\<open>LogFileHandler.on_created\<close>). Exceptions are values of the type \<open>error\<close>.
\<close>

datatype error = ValueError | OSError | RuntimeError

section \<open>Python strings\<close>

text \<open>
  A Python \<open>str\<close> is modelled as a \<open>string\<close>. The character tests below are
  the ASCII part of Python's tables: \<open>str.lower\<close>, \<open>str.upper\<close>, \<open>str.strip\<close>,
  \<open>str.splitlines\<close> and the classes \<^verbatim>\<open>\d\<close>, \<^verbatim>\<open>\w\<close>, \<^verbatim>\<open>\s\<close> of \<open>re\<close> act on the
  ASCII range; every other character is left alone and belongs to no class. The
  patterns and the extension table of the source are ASCII, but for one en dash.
\<close>

definition lower_char :: "char \<Rightarrow> char" where
  "lower_char c =
     (case map_of (zip ''ABCDEFGHIJKLMNOPQRSTUVWXYZ'' ''abcdefghijklmnopqrstuvwxyz'') c of
        None \<Rightarrow> c | Some d \<Rightarrow> d)"

definition upper_char :: "char \<Rightarrow> char" where
  "upper_char c =
     (case map_of (zip ''abcdefghijklmnopqrstuvwxyz'' ''ABCDEFGHIJKLMNOPQRSTUVWXYZ'') c of
        None \<Rightarrow> c | Some d \<Rightarrow> d)"

definition lower :: "string \<Rightarrow> string" where
  "lower s = map lower_char s"

definition upper :: "string \<Rightarrow> string" where
  "upper s = map upper_char s"

definition is_digit :: "char \<Rightarrow> bool" where
  "is_digit c = (c \<in> set ''0123456789'')"

definition is_word :: "char \<Rightarrow> bool" where
  "is_word c =
     (c \<in> set ''abcdefghijklmnopqrstuvwxyzABCDEFGHIJKLMNOPQRSTUVWXYZ0123456789_'')"

text \<open>
  \<open>str.isspace\<close> on ASCII: tab, line feed, vertical tab, form feed, carriage return,
  the separators 0x1C to 0x1F and the space.
\<close>

definition is_space :: "char \<Rightarrow> bool" where
  "is_space c =
     (c \<in> set [CHR 0x09, CHR 0x0A, CHR 0x0B, CHR 0x0C, CHR 0x0D,
                CHR 0x1C, CHR 0x1D, CHR 0x1E, CHR 0x1F, CHR 0x20])"

definition strip :: "string \<Rightarrow> string" where
  "strip s = rev (dropWhile is_space (rev (dropWhile is_space s)))"

definition startswith :: "string \<Rightarrow> string \<Rightarrow> bool" where
  "startswith s p = (take (length p) s = p)"

definition endswith :: "string \<Rightarrow> string \<Rightarrow> bool" where
  "endswith s p = (length p \<le> length s \<and> drop (length s - length p) s = p)"

text \<open>\<open>sub in s\<close> on strings.\<close>

fun contains :: "string \<Rightarrow> string \<Rightarrow> bool" where
  "contains sub [] = (sub = [])"
| "contains sub (c # cs) = (startswith (c # cs) sub \<or> contains sub cs)"

text \<open>
  \<open>s.split(sep)\<close> for a separator of one character: the pieces between the
  separators, never an empty list.
\<close>

fun split_acc :: "char \<Rightarrow> string \<Rightarrow> string \<Rightarrow> string list" where
  "split_acc sep cur [] = [cur]"
| "split_acc sep cur (c # cs) =
     (if c = sep then cur # split_acc sep [] cs else split_acc sep (cur @ [c]) cs)"

definition str_split :: "char \<Rightarrow> string \<Rightarrow> string list" where
  "str_split sep s = split_acc sep [] s"

text \<open>
  \<open>str.splitlines\<close>: a line ends at line feed, carriage return (with a following
  line feed as one boundary), vertical tab, form feed or one of 0x1C, 0x1D, 0x1E; a final
  boundary opens no empty last line.
\<close>

definition is_linebreak :: "char \<Rightarrow> bool" where
  "is_linebreak c = (c \<in> set [CHR 0x0A, CHR 0x0B, CHR 0x0C, CHR 0x0D, CHR 0x1C, CHR 0x1D, CHR 0x1E])"

fun splitlines_acc :: "string \<Rightarrow> string \<Rightarrow> string list" where
  "splitlines_acc cur [] = (if cur = [] then [] else [cur])"
| "splitlines_acc cur (c # cs) =
     (if c = CHR 0x0D then
        (case cs of
           [] \<Rightarrow> [cur]
         | d # ds \<Rightarrow> if d = CHR 0x0A then cur # splitlines_acc [] ds
                    else cur # splitlines_acc [] (d # ds))
      else if is_linebreak c then cur # splitlines_acc [] cs
      else splitlines_acc (cur @ [c]) cs)"

definition splitlines :: "string \<Rightarrow> string list" where
  "splitlines s = splitlines_acc [] s"

text \<open>\<open>xs.index(x)\<close>: the first position of \<open>x\<close>, \<open>None\<close> where Python raises ValueError.\<close>

fun index :: "'a list \<Rightarrow> 'a \<Rightarrow> nat option" where
  "index [] x = None"
| "index (y # ys) x = (if y = x then Some 0 else map_option Suc (index ys x))"

text \<open>
  \<open>int(s)\<close> on the strings the parser passes to it, which its patterns restrict to
  decimal digits: the number, and ValueError on the empty string.
\<close>

definition digit_val :: "char \<Rightarrow> int" where
  "digit_val c = (case index ''0123456789'' c of None \<Rightarrow> 0 | Some k \<Rightarrow> int k)"

definition py_int :: "string \<Rightarrow> error + int" where
  "py_int s =
     (if s \<noteq> [] \<and> list_all is_digit s then Inr (foldl (\<lambda>n c. 10 * n + digit_val c) 0 s)
      else Inl ValueError)"

section \<open>Regular expressions\<close>

text \<open>
  The fragment of Python's \<open>re\<close> that the parser's patterns are written in: literal
  characters, \<^verbatim>\<open>.\<close> (any character but line feed), \<^verbatim>\<open>\d\<close>, \<^verbatim>\<open>\w\<close>, \<^verbatim>\<open>\s\<close>, the
  sets \<^verbatim>\<open>[\dx]\<close> and \<^verbatim>\<open>[^x]\<close>, the greedy \<^verbatim>\<open>+\<close> on one of these, sequencing and
  capture groups.
\<close>

datatype cls = Lit char | AnyChar | Digit | Word | Space | DigitOr char | Except char

fun cls_match :: "cls \<Rightarrow> char \<Rightarrow> bool" where
  "cls_match (Lit a) c = (c = a)"
| "cls_match AnyChar c = (c \<noteq> CHR 0x0A)"
| "cls_match Digit c = is_digit c"
| "cls_match Word c = is_word c"
| "cls_match Space c = is_space c"
| "cls_match (DigitOr a) c = (is_digit c \<or> c = a)"
| "cls_match (Except a) c = (c \<noteq> a)"

datatype regex = Eps | Atom cls | Plus cls | Seq regex regex | Group regex

text \<open>
  Backtracking as a list of successes. A matching state is the text still to be read
  and the groups captured so far; \<open>rmatch r st\<close> lists the states after \<open>r\<close> in the
  order in which a backtracking matcher tries them, so its head is the match Python
  reports. The greedy \<open>+\<close> offers its longest run first.
\<close>

fun plus_rests :: "cls \<Rightarrow> string \<Rightarrow> string list" where
  "plus_rests c [] = []"
| "plus_rests c (x # xs) = (if cls_match c x then plus_rests c xs @ [xs] else [])"

fun rmatch :: "regex \<Rightarrow> string \<times> string list \<Rightarrow> (string \<times> string list) list" where
  "rmatch Eps st = [st]"
| "rmatch (Atom c) (s, g) =
     (case s of [] \<Rightarrow> [] | x # xs \<Rightarrow> if cls_match c x then [(xs, g)] else [])"
| "rmatch (Plus c) (s, g) = map (\<lambda>r. (r, g)) (plus_rests c s)"
| "rmatch (Seq a b) st = concat (map (rmatch b) (rmatch a st))"
| "rmatch (Group r) (s, g) =
     map (\<lambda>(s', g'). (s', g' @ [take (length s - length s') s])) (rmatch r (s, g))"

definition cat :: "regex list \<Rightarrow> regex" where
  "cat rs = foldr Seq rs Eps"

definition lit :: "string \<Rightarrow> regex" where
  "lit s = cat (map (\<lambda>c. Atom (Lit c)) s)"

text \<open>\<open>re.match\<close>: the groups of the first match at the start of the text.\<close>

definition re_match :: "regex \<Rightarrow> string \<Rightarrow> string list option" where
  "re_match r s = (case rmatch r (s, []) of [] \<Rightarrow> None | (rest, g) # _ \<Rightarrow> Some g)"

text \<open>\<open>re.search\<close>: the first position, from the left, at which the pattern matches.\<close>

fun re_search :: "regex \<Rightarrow> string \<Rightarrow> string list option" where
  "re_search r [] = re_match r []"
| "re_search r (c # cs) =
     (case re_match r (c # cs) of Some g \<Rightarrow> Some g | None \<Rightarrow> re_search r cs)"

text \<open>
  \<open>re.findall\<close> for a pattern with one group: the group of every match, from left to
  right, the search resuming where the last match ended (one character further on after
  an empty match).
\<close>

function findall :: "regex \<Rightarrow> string \<Rightarrow> string list" where
  "findall r [] = (case rmatch r ([], []) of [] \<Rightarrow> [] | (rest, g) # _ \<Rightarrow> [g ! 0])"
| "findall r (c # cs) =
     (case rmatch r (c # cs, []) of
        [] \<Rightarrow> findall r cs
      | (rest, g) # _ \<Rightarrow>
          if length rest < length (c # cs) then (g ! 0) # findall r rest
          else (g ! 0) # findall r cs)"
  by pat_completeness auto
termination
  by (relation "measure (\<lambda>(r, s). length s)") auto

section \<open>Classifier: \<open>get_file_type\<close>\<close>

text \<open>
  The dictionary \<open>file_types\<close> of \<open>get_file_type\<close>, in insertion order, which is the
  order \<open>file_types.items()\<close> iterates in.
\<close>

definition file_types :: "(string \<times> string list) list" where
  "file_types =
    [(''Image'', [''.png'', ''.jpeg'', ''.jpg'', ''.bmp'', ''.tiff'', ''.tif'', ''.exr'', ''.tga'', ''.dpx'']),
     (''Video'', [''.mov'']),
     (''Audio'', [''.mp3'', ''.wav'', ''.aiff'']),
     (''3D'', [''.abc'', ''.fbx'', ''.obj''])]"

text \<open>The loop \<open>for type_name, exts in file_types.items()\<close> with its fall-through return.\<close>

fun lookup_type :: "(string \<times> string list) list \<Rightarrow> string \<Rightarrow> string" where
  "lookup_type [] extension = ''Unknown''"
| "lookup_type ((type_name, exts) # rest) extension =
     (if lower extension \<in> set exts then type_name else lookup_type rest extension)"

definition get_file_type :: "string \<Rightarrow> string" where
  "get_file_type extension = lookup_type file_types extension"

section \<open>Data model\<close>

text \<open>
  The dictionaries of \<open>parse_sync_log\<close>, with the keys of the source as fields. A value
  that the source initialises to None is an \<open>option\<close>.
\<close>

record FileEvent =
  timestamp :: string
  file_path :: string

record SyncOperation =
  source :: string
  destination :: string
  files_created :: "FileEvent list"

record SyncRun =
  sync_name :: "string option"
  date :: "string option"
  start_time :: "string option"
  items_processed :: "int option"
  total_size :: "string option"
  total_time :: "string option"
  comparison_items :: "int option"
  comparison_time :: "string option"
  sync_operations :: "SyncOperation list"

text \<open>
  The value stored under a file name in \<open>unique_files\<close>; its key \<open>timestamp\<close> is the
  field \<open>info_timestamp\<close>.
\<close>

record FileInfo =
  info_timestamp :: string
  file_type :: string
  "section" :: string
  file_name :: string

definition empty_data :: SyncRun where
  "empty_data =
     \<lparr>sync_name = None, date = None, start_time = None, items_processed = None,
      total_size = None, total_time = None, comparison_items = None,
      comparison_time = None, sync_operations = []\<rparr>"

section \<open>LogParser: \<open>parse_sync_log\<close>\<close>

subsection \<open>The patterns\<close>

definition date_re :: regex where
  "date_re = cat [Plus Digit, lit ''/'', Plus Digit, lit ''/'', Plus Digit]"

definition clock_re :: regex where
  "clock_re = cat [Plus Digit, lit '':'', Plus Digit, lit '':'', Plus Digit]"

definition time_re :: regex where
  "time_re = cat [clock_re, lit '' '', Plus Word]"

text \<open>\<^verbatim>\<open>(.+) (\d+/\d+/\d+) \[(\d+:\d+:\d+ \w+)\]\<close>\<close>

definition header_re :: regex where
  "header_re =
     cat [Group (Plus AnyChar), lit '' '', Group date_re, lit '' ['', Group time_re, lit '']'']"

text \<open>\<^verbatim>\<open>Items processed: (\d+) \(([\d.]+ \w+)\)\<close>\<close>

definition items_re :: regex where
  "items_re =
     cat [lit ''Items processed: '', Group (Plus Digit), lit '' ('',
          Group (cat [Plus (DigitOr (CHR ''.'')), lit '' '', Plus Word]), lit '')'']"

text \<open>\<^verbatim>\<open>Total time: (\d+:\d+:\d+)\<close>\<close>

definition total_re :: regex where
  "total_re = cat [lit ''Total time: '', Group clock_re]"

text \<open>
  \<^verbatim>\<open>Info:\s+Comparison finished: ([\d,]+) items found -- Time elapsed: (\d+:\d+:\d+)\<close>,
  where the source has an en dash (U+2013, the bytes E2 80 93 in UTF-8) between
  \<open>found\<close> and \<open>Time\<close>.
\<close>

definition comparison_re :: regex where
  "comparison_re =
     cat [lit ''Info:'', Plus Space, lit ''Comparison finished: '',
          Group (Plus (DigitOr (CHR '',''))), lit '' items found '',
          lit [CHR 0xE2, CHR 0x80, CHR 0x93], lit '' Time elapsed: '', Group clock_re]"

text \<open>\<^verbatim>\<open>Info:\s+Creating file "(.+)"\<close>\<close>

definition creating_re :: regex where
  "creating_re =
     cat [lit ''Info:'', Plus Space, lit ''Creating file '', lit [CHR 0x22],
          Group (Plus AnyChar), lit [CHR 0x22]]"

text \<open>\<^verbatim>\<open>\[(\d+:\d+:\d+ \w+)\]\<close>\<close>

definition stamp_re :: regex where
  "stamp_re = cat [lit ''['', Group time_re, lit '']'']"

text \<open>\<^verbatim>\<open><span style="font-weight:600; color:gray;">([^<]+)</span>\<close>\<close>

definition html_name_re :: regex where
  \<open>html_name_re =
     cat [lit ''<span style="font-weight:600; color:gray;">'', Group (Plus (Except (CHR ''<''))),
          lit ''</span>'']\<close>

text \<open>\<^verbatim>\<open>(\d+/\d+/\d+)\<close>\<close>

definition html_date_re :: regex where
  "html_date_re = Group date_re"

text \<open>\<^verbatim>\<open>(\d+:\d+:\d+ \w+)</span>\<close>\<close>

definition html_time_re :: regex where
  "html_time_re = cat [Group time_re, lit ''</span>'']"

text \<open>\<^verbatim>\<open><td valign="top">(\d+:\d+:\d+ \w+)</td>\<close>\<close>

definition html_cell_re :: regex where
  \<open>html_cell_re = cat [lit ''<td valign="top">'', Group time_re, lit ''</td>'']\<close>

text \<open>\<^verbatim>\<open>Creating file &quot;([^&]+)&quot;\<close>\<close>

definition html_creating_re :: regex where
  "html_creating_re =
     cat [lit ''Creating file &quot;'', Group (Plus (Except (CHR ''&''))), lit ''&quot;'']"

definition marker :: string where
  "marker = ''Synchronizing folder pair: Update >''"

subsection \<open>The markup branch\<close>

definition parse_html :: "string \<Rightarrow> SyncRun" where
  "parse_html content =
     (let data = empty_data;
          data = (case re_search html_name_re content of
                    Some g \<Rightarrow> data\<lparr>sync_name := Some (g ! 0)\<rparr> | None \<Rightarrow> data);
          data = (case re_search html_date_re content of
                    Some g \<Rightarrow> data\<lparr>date := Some (g ! 0)\<rparr> | None \<Rightarrow> data);
          data = (case re_search html_time_re content of
                    Some g \<Rightarrow> data\<lparr>start_time := Some (g ! 0)\<rparr> | None \<Rightarrow> data);
          timestamps = findall html_cell_re content;
          file_paths = findall html_creating_re content;
          files_created =
            map (\<lambda>(ts, fp). \<lparr>timestamp = ts, file_path = fp\<rparr>) (zip timestamps file_paths)
      in data\<lparr>sync_operations := sync_operations data @
             [\<lparr>source = '''', destination = '''', files_created = files_created\<rparr>]\<rparr>)"

subsection \<open>The plain-text branch\<close>

text \<open>The two summary checks, an \<open>if\<close>/\<open>elif\<close> that falls through to the next check.\<close>

definition summary :: "string \<Rightarrow> SyncRun \<Rightarrow> error + SyncRun" where
  "summary line data =
     (if startswith line ''|    Items processed:'' then
        (case re_search items_re line of
           Some g \<Rightarrow>
             (case py_int (g ! 0) of
                Inl e \<Rightarrow> Inl e
              | Inr n \<Rightarrow> Inr (data\<lparr>items_processed := Some n, total_size := Some (g ! 1)\<rparr>))
         | None \<Rightarrow> Inr data)
      else if startswith line ''|    Total time:'' then
        (case re_search total_re line of
           Some g \<Rightarrow> Inr (data\<lparr>total_time := Some (g ! 0)\<rparr>)
         | None \<Rightarrow> Inr data)
      else Inr data)"

text \<open>
  The last check of an iteration: a file event goes to the newest operation, when there
  is one and the line starts with a bracketed time.
\<close>

definition creating_file :: "string \<Rightarrow> SyncRun \<Rightarrow> SyncRun" where
  "creating_file line data =
     (case re_search creating_re line of
        Some g \<Rightarrow>
          if sync_operations data \<noteq> [] then
            (case re_match stamp_re line of
               Some t \<Rightarrow>
                 (let ops = sync_operations data; cur = last ops
                  in data\<lparr>sync_operations := butlast ops @
                       [cur\<lparr>files_created := files_created cur @
                          [\<lparr>timestamp = t ! 0, file_path = g ! 0\<rparr>]\<rparr>]\<rparr>)
             | None \<Rightarrow> data)
          else data
      | None \<Rightarrow> data)"

text \<open>
  One iteration of \<open>while i < len(lines)\<close>: the index the scan resumes from and the
  updated data, or the exception that \<open>int\<close> raises.
\<close>

definition step :: "string list \<Rightarrow> nat \<Rightarrow> SyncRun \<Rightarrow> error + nat \<times> SyncRun" where
  "step lines i data =
     (let line = strip (lines ! i) in
      if line = [] then Inr (i + 1, data)
      else
        (case re_match header_re line of
           Some g \<Rightarrow>
             Inr (i + 1, data\<lparr>sync_name := Some (g ! 0), date := Some (g ! 1),
                               start_time := Some (g ! 2)\<rparr>)
         | None \<Rightarrow>
             (case summary line data of
                Inl e \<Rightarrow> Inl e
              | Inr data \<Rightarrow>
                  (case re_search comparison_re line of
                     Some g \<Rightarrow>
                       (case py_int (filter (\<lambda>c. c \<noteq> CHR '','') (g ! 0)) of
                          Inl e \<Rightarrow> Inl e
                        | Inr n \<Rightarrow>
                            Inr (i + 1, data\<lparr>comparison_items := Some n,
                                              comparison_time := Some (g ! 1)\<rparr>))
                   | None \<Rightarrow>
                       if contains marker line \<and> i + 2 < length lines then
                         Inr (i + 3, data\<lparr>sync_operations := sync_operations data @
                                [\<lparr>source = strip (lines ! (i + 1)),
                                  destination = strip (lines ! (i + 2)),
                                  files_created = []\<rparr>]\<rparr>)
                       else Inr (i + 1, creating_file line data)))))"

function scan :: "string list \<Rightarrow> nat \<Rightarrow> SyncRun \<Rightarrow> error + SyncRun" where
  "scan lines i data =
     (if i < length lines then
        (case step lines i data of
           Inl e \<Rightarrow> Inl e
         | Inr (i', data') \<Rightarrow> scan lines i' data')
      else Inr data)"
  by pat_completeness auto
termination
  by (relation "measure (\<lambda>(lines, i, data). length lines - i)")
     (auto simp: step_def Let_def split: if_splits option.splits sum.splits)

text \<open>
  \<open>parse_sync_log\<close>, from the path (for its extension) and the text that \<open>file.read()\<close>
  returned.
\<close>

definition parse_sync_log :: "string \<Rightarrow> string \<Rightarrow> error + SyncRun" where
  "parse_sync_log log_file_path content =
     (if endswith (lower log_file_path) ''.html'' then Inr (parse_html content)
      else scan (splitlines content) 0 empty_data)"

section \<open>RecordReducer: \<open>extract_unique_files\<close>\<close>

text \<open>
  \<open>unique_files\<close> is a dictionary, whose keys iterate in the order of their first
  insertion: an association list with distinct keys, a new key added at its end.
  The three derived values of the loop body come first.
\<close>

definition name_of_path :: "string \<Rightarrow> string" where
  "name_of_path fp = last (str_split (CHR 0x5C) fp)"

definition extension_of :: "string \<Rightarrow> string" where
  "extension_of fn = (if CHR ''.'' \<in> set fn then ''.'' @ last (str_split (CHR ''.'') fn) else '''')"

definition section_of :: "string \<Rightarrow> string" where
  "section_of fp =
     (let path_parts = str_split (CHR 0x5C) fp in
      case index path_parts ''VideoFile'' of
        None \<Rightarrow> ''''
      | Some video_file_index \<Rightarrow>
          if video_file_index + 1 < length path_parts then path_parts ! (video_file_index + 1)
          else '''')"

text \<open>The body of the inner loop, for one \<open>file_info\<close>.\<close>

definition add_file :: "(string \<times> FileInfo) list \<Rightarrow> FileEvent \<Rightarrow> (string \<times> FileInfo) list" where
  "add_file unique_files file_info =
     (let fn = name_of_path (file_path file_info) in
      if fn \<notin> set (map fst unique_files) then
        unique_files @
          [(fn, \<lparr>info_timestamp = timestamp file_info,
                 file_type = get_file_type (extension_of fn),
                 section = section_of (file_path file_info),
                 file_name = fn\<rparr>)]
      else unique_files)"

definition extract_unique_files :: "SyncRun \<Rightarrow> (string \<times> FileInfo) list" where
  "extract_unique_files parsed_data =
     foldl (\<lambda>unique_files operation. foldl add_file unique_files (files_created operation))
       [] (sync_operations parsed_data)"

section \<open>LocalFileSink: \<open>append_to_csv\<close>\<close>

text \<open>
  The CSV file is modelled by the rows that \<open>csv.reader\<close> yields from it, each a list
  of fields, and by \<open>None\<close> when \<open>os.path.isfile\<close> is false. Quoting and line
  terminators are those of the \<open>csv\<close> module on both sides and are not modelled; a
  file of size zero is the file with no row.
\<close>

type_synonym row = "string list"

definition fieldnames :: row where
  "fieldnames = [''Date'', ''Time'', ''Type'', ''Section'', ''File Name'']"

text \<open>
  A row as a dictionary: the cells by key, in insertion order (a later cell of the same
  key replaces an earlier one on lookup), a cell being None where \<open>DictReader\<close> pads a
  short row; and the surplus fields of a long row, which \<open>DictReader\<close> stores under the
  key None.
\<close>

record rowdict =
  cells :: "(string \<times> string option) list"
  restkey :: "string list option"

definition dict_of_row :: "row \<Rightarrow> row \<Rightarrow> rowdict" where
  "dict_of_row names r =
     \<lparr>cells = zip names (map Some r) @ map (\<lambda>k. (k, None)) (drop (length r) names),
      restkey = (if length names < length r then Some (drop (length names) r) else None)\<rparr>"

text \<open>
  \<open>csv.DictReader\<close> without field names: the first row names the fields, blank rows are
  passed over, every other row becomes a dictionary.
\<close>

definition DictReader :: "row list \<Rightarrow> rowdict list" where
  "DictReader rows =
     (case rows of
        [] \<Rightarrow> []
      | names # others \<Rightarrow> map (dict_of_row names) (filter (\<lambda>r. r \<noteq> []) others))"

text \<open>
  \<open>DictWriter.writerow\<close> with \<open>extrasaction='raise'\<close> and \<open>restval=''\<close>: a key outside
  the field names raises ValueError; a missing key and a None are written as the empty
  field.
\<close>

definition dict_to_list :: "rowdict \<Rightarrow> error + row" where
  "dict_to_list d =
     (if restkey d \<noteq> None \<or> \<not> list_all (\<lambda>k. k \<in> set fieldnames) (map fst (cells d))
      then Inl ValueError
      else Inr (map (\<lambda>k. case map_of (rev (cells d)) k of
                            Some (Some v) \<Rightarrow> v
                          | _ \<Rightarrow> '''') fieldnames))"

text \<open>
  \<open>for row in rows: writer.writerow(row)\<close> on an open file: the rows written and the
  outcome; an exception leaves what was written before it.
\<close>

fun write_rows :: "rowdict list \<Rightarrow> row list \<Rightarrow> (error + unit) \<times> row list" where
  "write_rows [] f = (Inr (), f)"
| "write_rows (d # ds) f =
     (case dict_to_list d of
        Inl e \<Rightarrow> (Inl e, f)
      | Inr r \<Rightarrow> write_rows ds (f @ [r]))"

definition break_row :: rowdict where
  "break_row =
     \<lparr>cells = [(''Date'', Some ''--- New Log Entry ---''), (''Time'', Some ''''),
               (''Type'', Some ''''), (''Section'', Some ''''), (''File Name'', Some '''')],
      restkey = None\<rparr>"

text \<open>
  The rows prepared before the file is opened. The source collects \<open>unique_files\<close> with
  the loop of \<open>extract_unique_files\<close>, written out a second time.
\<close>

definition new_rows :: "SyncRun \<Rightarrow> bool \<Rightarrow> rowdict list" where
  "new_rows data add_breaks =
     map (\<lambda>(fn, info).
            \<lparr>cells = [(''Date'', date data), (''Time'', Some (info_timestamp info)),
                      (''Type'', Some (file_type info)), (''Section'', Some (section info)),
                      (''File Name'', Some (file_name info))],
             restkey = None\<rparr>)
         (extract_unique_files data)
     @ (if add_breaks then [break_row] else [])"

text \<open>
  \<open>append_to_csv\<close>: the outcome (\<open>Inl\<close> the exception it re-raises) and the file it
  leaves.
\<close>

definition append_to_csv ::
    "SyncRun \<Rightarrow> row list option \<Rightarrow> bool \<Rightarrow> bool \<Rightarrow> (error + unit) \<times> row list option" where
  "append_to_csv data csv prepend add_breaks =
     (let file_exists = (csv \<noteq> None);
          file_is_empty = (file_exists \<and> csv = Some []);
          rows = new_rows data add_breaks
      in
      if prepend \<and> file_exists \<and> \<not> file_is_empty then
        (let existing_rows = DictReader (the csv) in
         case write_rows rows [fieldnames] of
           (Inl e, f) \<Rightarrow> (Inl e, Some f)
         | (Inr u, f) \<Rightarrow> (case write_rows existing_rows f of (res, f') \<Rightarrow> (res, Some f')))
      else
        (let f = (case csv of None \<Rightarrow> [] | Some old \<Rightarrow> old);
             f = (if \<not> file_exists \<or> file_is_empty then f @ [fieldnames] else f)
         in case write_rows rows f of (res, f') \<Rightarrow> (res, Some f')))"

section \<open>Orchestrator: \<open>LogFileHandler.on_created\<close>\<close>

text \<open>
  The handler's collaborators are made explicit. The world holds the CSV file, the
  lines given to \<open>log_callback\<close>, the runs given to \<open>store_callback\<close> and the runs given
  to \<open>sheets_callback\<close>. The sheet callback is a function from the run to its outcome,
  \<open>None\<close> when the handler was built without one; reading the log file is the function
  \<open>read_file\<close> from a path to the text or to the exception of \<open>open\<close>.
\<close>

record event =
  is_directory :: bool
  src_path :: string

datatype message =
    Detected string
  | Parsed nat
  | Stored
  | Failed string error
  | Traceback error

record world =
  csv_file :: "row list option"
  messages :: "message list"
  stored :: "SyncRun list"
  uploads :: "SyncRun list"

record LogFileHandler =
  prepend_mode :: bool
  add_breaks_mode :: bool
  sheets_callback :: "(SyncRun \<Rightarrow> error + unit) option"

definition log_callback :: "message \<Rightarrow> world \<Rightarrow> world" where
  "log_callback m w = w\<lparr>messages := messages w @ [m]\<rparr>"

text \<open>
  The \<open>except Exception\<close> clause: the error and its traceback are logged and the
  handler returns.
\<close>

definition handle_exception :: "string \<Rightarrow> error \<Rightarrow> world \<Rightarrow> world" where
  "handle_exception path e w = log_callback (Traceback e) (log_callback (Failed path e) w)"

definition on_created ::
    "LogFileHandler \<Rightarrow> (string \<Rightarrow> error + string) \<Rightarrow> event \<Rightarrow> world \<Rightarrow> world" where
  "on_created self read_file ev w =
     (if \<not> is_directory ev \<and> (endswith (src_path ev) ''.log'' \<or> endswith (src_path ev) ''.html'')
      then
        (let w = log_callback (Detected (src_path ev)) w in
         case (case read_file (src_path ev) of
                 Inl e \<Rightarrow> Inl e
               | Inr content \<Rightarrow> parse_sync_log (src_path ev) content) of
           Inl e \<Rightarrow> handle_exception (src_path ev) e w
         | Inr parsed_data \<Rightarrow>
             (let w = log_callback (Parsed (length (sync_operations parsed_data))) w in
              case append_to_csv parsed_data (csv_file w) (prepend_mode self) (add_breaks_mode self) of
                (Inl e, f) \<Rightarrow> handle_exception (src_path ev) e (w\<lparr>csv_file := f\<rparr>)
              | (Inr u, f) \<Rightarrow>
                  (let w = w\<lparr>csv_file := f, stored := stored w @ [parsed_data]\<rparr>;
                       w = log_callback Stored w
                   in case sheets_callback self of
                        None \<Rightarrow> w
                      | Some upload \<Rightarrow>
                          (let w = w\<lparr>uploads := uploads w @ [parsed_data]\<rparr> in
                           case upload parsed_data of
                             Inl e \<Rightarrow> handle_exception (src_path ev) e w
                           | Inr u \<Rightarrow> w))))
      else w)"

section \<open>Notions used in the statements\<close>

text \<open>
  The file events of a run in the order the reducer walks them, operation by
  operation, and the name the reducer derives from an event.
\<close>

definition file_events :: "SyncRun \<Rightarrow> FileEvent list" where
  "file_events data = concat (map files_created (sync_operations data))"

definition event_name :: "FileEvent \<Rightarrow> string" where
  "event_name e = name_of_path (file_path e)"


text \<open>
  The fields that the writer emits for a new row (a date of None is written as the
  empty field), the fields of the break row, and the block of rows that one call
  writes: one row per unique file in insertion order, then the break row when
  \<open>add_breaks\<close> is set.
\<close>

definition csv_fields :: "SyncRun \<Rightarrow> FileInfo \<Rightarrow> row" where
  "csv_fields data info =
     [case date data of None \<Rightarrow> '''' | Some d \<Rightarrow> d, info_timestamp info, file_type info,
      section info, file_name info]"

definition break_fields :: row where
  "break_fields = [''--- New Log Entry ---'', '''', '''', '''', '''']"

definition new_block :: "SyncRun \<Rightarrow> bool \<Rightarrow> row list" where
  "new_block data add_breaks =
     map (\<lambda>(fn, info). csv_fields data info) (extract_unique_files data)
     @ (if add_breaks then [break_fields] else [])"




text \<open>Concrete inputs: a run of one file, its row, and a row written by an earlier run.\<close>

definition demo_event :: FileEvent where
  "demo_event =
     \<lparr>timestamp = ''2:30:20 PM'',
      file_path = ''D:'' @ [CHR 0x5C] @ ''VideoFile'' @ [CHR 0x5C] @ ''Proj'' @ [CHR 0x5C] @ ''test.mov''\<rparr>"

definition demo_run :: SyncRun where
  "demo_run =
     empty_data\<lparr>date := Some ''9/13/2025'',
       sync_operations := [\<lparr>source = ''C:'', destination = ''D:'', files_created = [demo_event]\<rparr>]\<rparr>"

definition demo_row :: row where
  "demo_row = [''9/13/2025'', ''2:30:20 PM'', ''Video'', ''Proj'', ''test.mov'']"

definition old_row :: row where
  "old_row = [''9/12/2025'', ''1:00:00 PM'', ''Image'', ''Proj'', ''old.png'']"

text \<open>A run in which a second event, in a second operation, has the name of the first.\<close>

definition later_event :: FileEvent where
  "later_event = \<lparr>timestamp = ''2:30:25 PM'', file_path = ''E:'' @ [CHR 0x5C] @ ''test.mov''\<rparr>"

definition dup_run :: SyncRun where
  "dup_run =
     empty_data\<lparr>date := Some ''9/13/2025'',
       sync_operations :=
         [\<lparr>source = ''C:'', destination = ''D:'', files_created = [demo_event]\<rparr>,
          \<lparr>source = ''C:'', destination = ''E:'', files_created = [later_event]\<rparr>]\<rparr>"

text \<open>
  A plain-text log of one operation and one created file, the run it parses to, and a
  markup log with two time cells and one created file.
\<close>

definition demo_log :: string where
  \<open>demo_log = ''Job 9/13/2025 [2:30:15 PM]
Synchronizing folder pair: Update >
C:
D:
[2:30:20 PM]  Info:  Creating file "D:'' @ [CHR 0x5C] @ ''VideoFile'' @ [CHR 0x5C] @ ''Proj'' @ [CHR 0x5C] @ ''test.mov"
''\<close>

definition demo_parsed :: SyncRun where
  "demo_parsed = demo_run\<lparr>sync_name := Some ''Job'', start_time := Some ''2:30:15 PM''\<rparr>"

definition demo_html :: string where
  \<open>demo_html =
     ''<td valign="top">2:30:20 PM</td>Creating file &quot;D:/VideoFile/Proj/test.mov&quot;<td valign="top">2:30:25 PM</td>''\<close>

text \<open>
  A file event for the log, a CSV file to which a sixth column was added by hand, two
  handlers with both sinks (the sheet callback of the second fails), and a world
  without any earlier message.
\<close>

definition log_event :: event where
  "log_event = \<lparr>is_directory = False, src_path = ''sync.log''\<rparr>"

definition noted_csv :: "row list option" where
  "noted_csv = Some [fieldnames @ [''Notes''], old_row @ [''checked'']]"

definition both_sinks :: LogFileHandler where
  "both_sinks =
     \<lparr>prepend_mode = True, add_breaks_mode = False, sheets_callback = Some (\<lambda>run. Inr ())\<rparr>"

definition failing_sheet :: LogFileHandler where
  "failing_sheet =
     \<lparr>prepend_mode = False, add_breaks_mode = False,
      sheets_callback = Some (\<lambda>run. Inl RuntimeError)\<rparr>"

definition world0 :: "row list option \<Rightarrow> world" where
  "world0 csv = \<lparr>csv_file = csv, messages = [], stored = [], uploads = []\<rparr>"

text \<open>The number of capture groups of a pattern.\<close>

fun ngroups :: "regex \<Rightarrow> nat" where
  "ngroups Eps = 0"
| "ngroups (Atom c) = 0"
| "ngroups (Plus c) = 0"
| "ngroups (Seq a b) = ngroups a + ngroups b"
| "ngroups (Group r) = Suc (ngroups r)"

text \<open>
  The indices at which the scan runs an iteration: the recursion of \<open>scan\<close>, with the
  index kept at each turn. The lines that a folder-pair line takes as source and
  destination are not among them.
\<close>

function visited :: "string list \<Rightarrow> nat \<Rightarrow> SyncRun \<Rightarrow> nat list" where
  "visited lines i data =
     (if i < length lines then
        (case step lines i data of
           Inl e \<Rightarrow> [i]
         | Inr (i', data') \<Rightarrow> i # visited lines i' data')
      else [])"
  by pat_completeness auto
termination
  by (relation "measure (\<lambda>(lines, i, data). length lines - i)")
     (auto simp: step_def Let_def split: if_splits option.splits sum.splits)

declare scan.simps [simp del] visited.simps [simp del]

text \<open>
  The three header fields of a run; a line of header shape; and the header fields
  after an iteration at index \<open>k\<close>, given those before it.
\<close>

definition header_of :: "SyncRun \<Rightarrow> string option \<times> string option \<times> string option" where
  "header_of data = (sync_name data, date data, start_time data)"

definition header_shaped :: "string \<Rightarrow> bool" where
  "header_shaped l = (re_match header_re (strip l) \<noteq> None)"

definition header_step ::
    "string list \<Rightarrow> string option \<times> string option \<times> string option \<Rightarrow> nat
      \<Rightarrow> string option \<times> string option \<times> string option" where
  "header_step lines h k =
     (case re_match header_re (strip (lines ! k)) of
        Some g \<Rightarrow> (Some (g ! 0), Some (g ! 1), Some (g ! 2))
      | None \<Rightarrow> h)"




text \<open>
  Concrete texts: two header lines; a folder-pair line of header shape followed by two
  lines; a folder-pair line followed by one line; a text without structure; a
  comparison line whose count is a comma.
\<close>

definition two_headers :: string where
  "two_headers = ''First 9/13/2025 [2:30:15 PM]
Second 9/14/2025 [3:00:00 PM]
''"




definition commas_only :: string where
  "commas_only = ''Info: Comparison finished: , items found '' @ [CHR 0xE2, CHR 0x80, CHR 0x93]
      @ '' Time elapsed: 0:00:15''"

section \<open>The classifier is total and ignores case\<close>

lemma lower_upper_known:
  "ext \<in> set (concat (map snd file_types)) \<Longrightarrow> lower (upper ext) = ext"
  by (auto simp add: file_types_def lower_def lower_char_def upper_def upper_char_def)

lemma lower_known:
  "ext \<in> set (concat (map snd file_types)) \<Longrightarrow> lower ext = ext"
  by (auto simp add: file_types_def lower_def lower_char_def)

lemma lookup_type_lower:
  "lower a = lower b \<Longrightarrow> lookup_type ts a = lookup_type ts b"
  by (induction ts a rule: lookup_type.induct) auto

lemma lookup_type_range: "lookup_type ts e \<in> insert ''Unknown'' (set (map fst ts))"
  by (induction ts e rule: lookup_type.induct) auto

lemma lookup_type_matched:
  "lower e \<in> set (concat (map snd ts)) \<Longrightarrow> lookup_type ts e \<in> set (map fst ts)"
  by (induction ts e rule: lookup_type.induct) auto

lemma lookup_type_unmatched:
  "lower e \<notin> set (concat (map snd ts)) \<Longrightarrow> lookup_type ts e = ''Unknown''"
  by (induction ts e rule: lookup_type.induct) auto

lemma get_file_type_range:
  "get_file_type ext \<in> {''Image'', ''Video'', ''Audio'', ''3D'', ''Unknown''}"
  using lookup_type_range [of file_types ext]
  by (simp add: get_file_type_def file_types_def)

text \<open>
  Claim C9. \<open>get_file_type\<close> is a total function on extension strings: every
  extension \<open>known\<close> of the fixed table is classified as its upper-case form is (and
  neither as Unknown), every extension \<open>other\<close> whose lower-case form is not in the
  table, and the empty extension, are Unknown, and the result is always one of the five
  categories; no input leads to an error.
\<close>

theorem get_file_type_total_case_insensitive:
  "(known \<in> set (concat (map snd file_types)) \<longrightarrow>
      get_file_type (upper known) = get_file_type known \<and> get_file_type known \<noteq> ''Unknown'')
   \<and> (lower other \<notin> set (concat (map snd file_types)) \<longrightarrow> get_file_type other = ''Unknown'')
   \<and> get_file_type '''' = ''Unknown''
   \<and> get_file_type ext \<in> {''Image'', ''Video'', ''Audio'', ''3D'', ''Unknown''}"
proof (intro conjI impI)
  assume k: "known \<in> set (concat (map snd file_types))"
  have "lower (upper known) = lower known"
    using lower_upper_known [OF k] lower_known [OF k] by simp
  then show "get_file_type (upper known) = get_file_type known"
    unfolding get_file_type_def by (rule lookup_type_lower)
  have "lower known \<in> set (concat (map snd file_types))"
    using k lower_known by simp
  then have "get_file_type known \<in> set (map fst file_types)"
    unfolding get_file_type_def by (rule lookup_type_matched)
  then show "get_file_type known \<noteq> ''Unknown''"
    by (auto simp add: file_types_def)
next
  assume "lower other \<notin> set (concat (map snd file_types))"
  then show "get_file_type other = ''Unknown''"
    unfolding get_file_type_def by (rule lookup_type_unmatched)
next
  show "get_file_type '''' = ''Unknown''"
    by (simp add: get_file_type_def file_types_def lower_def)
next
  show "get_file_type ext \<in> {''Image'', ''Video'', ''Audio'', ''3D'', ''Unknown''}"
    by (rule get_file_type_range)
qed

theorem get_file_type_total_case_insensitive_witness:
  "''.png'' \<in> set (concat (map snd file_types))
   \<and> get_file_type (upper ''.png'') = get_file_type ''.png''
   \<and> get_file_type ''.png'' \<noteq> ''Unknown''
   \<and> lower ''.xyz'' \<notin> set (concat (map snd file_types))
   \<and> get_file_type ''.xyz'' = ''Unknown''"
proof -
  have h1: "''.png'' \<in> set (concat (map snd file_types))"
    by (simp add: file_types_def)
  have h2: "lower ''.xyz'' \<notin> set (concat (map snd file_types))"
    by (simp add: file_types_def lower_def lower_char_def)
  from get_file_type_total_case_insensitive [of "''.png''" "''.xyz''" "''''"] h1 h2
  show ?thesis by blast
qed

section \<open>The reducer keeps the first event of a name\<close>

lemma foldl_operations:
  "foldl (\<lambda>unique_files operation. foldl add_file unique_files (files_created operation)) acc ops
   = foldl add_file acc (concat (map files_created ops))"
  by (induction ops arbitrary: acc) simp_all

lemma extract_unique_files_events:
  "extract_unique_files data = foldl add_file [] (file_events data)"
  by (simp add: extract_unique_files_def file_events_def foldl_operations)

lemma add_file_seen: "event_name e \<in> fst ` set acc \<Longrightarrow> add_file acc e = acc"
  by (simp add: add_file_def event_name_def)

lemma add_file_new:
  "event_name e \<notin> fst ` set acc \<Longrightarrow>
   \<exists>info. add_file acc e = acc @ [(event_name e, info)] \<and> info_timestamp info = timestamp e
      \<and> file_name info = event_name e"
  by (simp add: add_file_def event_name_def Let_def)

lemma add_file_keys: "fst ` set (add_file acc e) = insert (event_name e) (fst ` set acc)"
  by (auto simp add: add_file_def event_name_def Let_def)

lemma reduce_keys: "fst ` set (foldl add_file acc es) = fst ` set acc \<union> event_name ` set es"
  by (induction es arbitrary: acc) (auto simp add: add_file_keys)

lemma add_file_distinct: "distinct (map fst acc) \<Longrightarrow> distinct (map fst (add_file acc e))"
  by (auto simp add: add_file_def Let_def)

lemma reduce_distinct:
  "distinct (map fst acc) \<Longrightarrow> distinct (map fst (foldl add_file acc es))"
  by (induction es arbitrary: acc) (auto simp add: add_file_distinct)

lemma add_file_extends: "\<exists>rest. add_file acc e = acc @ rest"
  by (simp add: add_file_def Let_def)

lemma reduce_extends: "\<exists>rest. foldl add_file acc es = acc @ rest"
proof (induction es arbitrary: acc)
  case Nil
  then show ?case by simp
next
  case (Cons e es)
  obtain r1 where r1: "add_file acc e = acc @ r1"
    using add_file_extends by blast
  obtain r2 where "foldl add_file (add_file acc e) es = add_file acc e @ r2"
    using Cons.IH by blast
  with r1 show ?case by simp
qed




text \<open>
  Claim C5. \<open>extract_unique_files\<close> walks the operations and their file events in
  order and keeps at most one record per file name. When two events \<open>e1\<close>, \<open>e2\<close> of
  the walk have the same final path component and \<open>e1\<close> is the first event of that
  name, the record of the name carries the timestamp of \<open>e1\<close> and no other, it stands
  where \<open>e1\<close> put it (right after the records of the events before \<open>e1\<close>), and the
  result is the one of the walk without \<open>e2\<close>: the later duplicate is dropped silently.
\<close>

theorem extract_unique_files_first_seen:
  assumes ev: "file_events data = pre @ e1 # mid @ e2 # post"
    and same: "event_name e2 = event_name e1"
    and first: "event_name e1 \<notin> event_name ` set pre"
  shows "distinct (map fst (extract_unique_files data))
    \<and> (\<exists>info rest. extract_unique_files data = foldl add_file [] pre @ (event_name e1, info) # rest
          \<and> info_timestamp info = timestamp e1 \<and> file_name info = event_name e1)
    \<and> (\<forall>info'. (event_name e1, info') \<in> set (extract_unique_files data)
          \<longrightarrow> info_timestamp info' = timestamp e1)
    \<and> extract_unique_files data = foldl add_file [] (pre @ e1 # mid @ post)"
proof -
  let ?A = "foldl add_file [] pre"
  let ?n = "event_name e1"
  have d: "distinct (map fst (extract_unique_files data))"
    by (simp add: extract_unique_files_events reduce_distinct)
  have "?n \<notin> fst ` set ?A"
    using first by (simp add: reduce_keys)
  then obtain info where info: "add_file ?A e1 = ?A @ [(?n, info)]"
      "info_timestamp info = timestamp e1" "file_name info = ?n"
    using add_file_new by blast
  obtain rest where rest:
    "foldl add_file (add_file ?A e1) (mid @ e2 # post) = add_file ?A e1 @ rest"
    using reduce_extends by blast
  have shape: "extract_unique_files data = ?A @ (?n, info) # rest"
    using rest info(1) by (simp add: extract_unique_files_events ev)
  have only: "info_timestamp info' = timestamp e1"
    if "(?n, info') \<in> set (extract_unique_files data)" for info'
  proof -
    have "(?n, info) \<in> set (extract_unique_files data)"
      by (simp add: shape)
    with that d have "info' = info"
      by (meson eq_key_imp_eq_value)
    then show ?thesis by (simp add: info(2))
  qed
  let ?B = "foldl add_file [] (pre @ e1 # mid)"
  have "event_name e2 \<in> fst ` set ?B"
    by (simp add: reduce_keys same add_file_keys)
  then have "add_file ?B e2 = ?B"
    by (rule add_file_seen)
  then have dropped: "extract_unique_files data = foldl add_file [] (pre @ e1 # mid @ post)"
    by (simp add: extract_unique_files_events ev)
  from d shape info(2,3) only dropped show ?thesis by blast
qed

theorem extract_unique_files_first_seen_witness:
  "file_events dup_run = [] @ demo_event # [] @ later_event # []
   \<and> event_name later_event = event_name demo_event
   \<and> timestamp later_event \<noteq> timestamp demo_event
   \<and> map fst (extract_unique_files dup_run) = [''test.mov'']
   \<and> map (\<lambda>p. info_timestamp (snd p)) (extract_unique_files dup_run) = [timestamp demo_event]"
proof -
  have h1: "file_events dup_run = [] @ demo_event # [] @ later_event # []"
    by (simp add: file_events_def dup_run_def)
  have h2: "event_name later_event = event_name demo_event"
    by code_simp
  have h3: "event_name demo_event \<notin> event_name ` set []"
    by simp
  have h4: "timestamp later_event \<noteq> timestamp demo_event"
    by (simp add: later_event_def demo_event_def)
  have h5: "event_name demo_event = ''test.mov''"
    by code_simp
  from extract_unique_files_first_seen [OF h1 h2 h3]
  have "extract_unique_files dup_run = foldl add_file [] ([] @ demo_event # [] @ [])"
    by blast
  then have "extract_unique_files dup_run = add_file [] demo_event"
    by simp
  with h1 h2 h4 h5 show ?thesis
    by (simp add: add_file_def Let_def event_name_def)
qed

section \<open>The local sink\<close>

subsection \<open>What the writer emits\<close>

lemma dict_to_list_new:
  "dict_to_list \<lparr>cells = [(''Date'', dt), (''Time'', Some a), (''Type'', Some b),
                           (''Section'', Some c), (''File Name'', Some d)], restkey = None\<rparr>
   = Inr [case dt of None \<Rightarrow> '''' | Some x \<Rightarrow> x, a, b, c, d]"
  by (simp add: dict_to_list_def fieldnames_def split: option.splits)

lemma dict_to_list_break: "dict_to_list break_row = Inr break_fields"
  by (simp add: dict_to_list_def fieldnames_def break_row_def break_fields_def)

lemma write_rows_append:
  "write_rows (ds @ es) f =
     (case write_rows ds f of (Inl e, f') \<Rightarrow> (Inl e, f') | (Inr u, f') \<Rightarrow> write_rows es f')"
  by (induction ds arbitrary: f) (auto split: sum.splits)

lemma write_rows_map:
  "(\<And>x. dict_to_list (h x) = Inr (k x)) \<Longrightarrow> write_rows (map h xs) f = (Inr (), f @ map k xs)"
  by (induction xs arbitrary: f) auto

lemma write_new_rows: "write_rows (new_rows data b) f = (Inr (), f @ new_block data b)"
proof -
  let ?mk = "\<lambda>(fn, info).
            \<lparr>cells = [(''Date'', date data), (''Time'', Some (info_timestamp info)),
                      (''Type'', Some (file_type info)), (''Section'', Some (section info)),
                      (''File Name'', Some (file_name info))],
             restkey = None\<rparr>"
  let ?k = "\<lambda>(fn :: string, info). csv_fields data info"
  have one: "dict_to_list (?mk x) = Inr (?k x)" for x
    by (cases x) (simp add: dict_to_list_new csv_fields_def)
  have files: "write_rows (map ?mk (extract_unique_files data)) f =
          (Inr (), f @ map ?k (extract_unique_files data))"
    by (rule write_rows_map) (rule one)
  show ?thesis
    by (simp add: new_rows_def new_block_def write_rows_append files dict_to_list_break)
qed






lemma new_block_demo: "new_block demo_run False = [demo_row]"
  by code_simp

subsection \<open>An absent or empty sink\<close>

text \<open>
  Claim C10. For every run and every local sink that is absent or has size zero,
  \<open>append_to_csv\<close> with \<open>prepend\<close> set leaves the same file, with the same outcome, as
  \<open>append_to_csv\<close> without it: the header row followed by the new rows in insertion
  order. The rewrite path of \<open>prepend\<close> is not taken on such a sink.
\<close>

theorem append_to_csv_absent_or_empty:
  assumes "csv = None \<or> csv = Some []"
  shows "append_to_csv data csv True add_breaks = append_to_csv data csv False add_breaks
    \<and> append_to_csv data csv False add_breaks
        = (Inr (), Some (fieldnames # new_block data add_breaks))"
  using assms by (auto simp add: append_to_csv_def write_new_rows)

theorem append_to_csv_absent_or_empty_witness:
  "append_to_csv demo_run (Some []) True False = append_to_csv demo_run (Some []) False False
    \<and> append_to_csv demo_run (Some []) False False = (Inr (), Some [fieldnames, demo_row])
    \<and> append_to_csv demo_run None True False = (Inr (), Some [fieldnames, demo_row])"
  using append_to_csv_absent_or_empty [of "Some []" demo_run False]
        append_to_csv_absent_or_empty [of None demo_run False]
  by (simp add: new_block_demo)

subsection \<open>One header row, no row lost\<close>




subsection \<open>The break row\<close>

text \<open>
  Claim C2 asks, in append mode, for the separator row before the new rows, and only
  when the sink already holds a data row. \<open>append_to_csv\<close> puts the break row at the
  end of the new rows before it looks at the mode: appending the run of one file, with
  \<open>add_breaks\<close> set, to a sink that holds the header and one data row leaves the break
  row after the new row; on an absent sink, with no earlier data row, the break row
  is written all the same.
\<close>

theorem append_to_csv_break_after_new_rows:
  "append_to_csv demo_run (Some [fieldnames, old_row]) False True
     = (Inr (), Some [fieldnames, old_row, demo_row, break_fields])
   \<and> append_to_csv demo_run None False True
     = (Inr (), Some [fieldnames, demo_row, break_fields])"
  by code_simp

theorem append_to_csv_break_after_new_rows_witness:
  "snd (append_to_csv demo_run (Some [fieldnames, old_row]) False True)
     = Some [fieldnames, old_row, demo_row, break_fields]
   \<and> last [fieldnames, old_row, demo_row, break_fields] = break_fields"
  using append_to_csv_break_after_new_rows by simp

section \<open>The markup branch pairs by position\<close>

lemma demo_html_cells: "findall html_cell_re demo_html = [''2:30:20 PM'', ''2:30:25 PM'']"
  by code_simp

lemma demo_html_paths: "findall html_creating_re demo_html = [''D:/VideoFile/Proj/test.mov'']"
  by code_simp

text \<open>
  Claim C7. For a path that ends in \<open>.html\<close>, \<open>parse_sync_log\<close> returns a run with
  exactly one operation, of empty source and destination; its file events are as many
  as the shorter of the two extracted sequences (the time cells and the
  \<open>Creating file\<close> paths) has entries, and the event at position \<open>n\<close> pairs the time at
  position \<open>n\<close> with the path at position \<open>n\<close>. The entries of the longer sequence beyond
  that length are dropped; two time cells and one path give one file event.
\<close>

theorem parse_html_pairs:
  assumes "endswith (lower log_file_path) ''.html''"
  shows "\<exists>data events. parse_sync_log log_file_path content = Inr data
     \<and> sync_operations data = [\<lparr>source = '''', destination = '''', files_created = events\<rparr>]
     \<and> length events = min (length (findall html_cell_re content))
                            (length (findall html_creating_re content))
     \<and> (\<forall>n < length events.
           events ! n = \<lparr>timestamp = findall html_cell_re content ! n,
                         file_path = findall html_creating_re content ! n\<rparr>)"
  using assms
  by (simp add: parse_sync_log_def parse_html_def Let_def empty_data_def split: option.splits)

theorem parse_html_pairs_witness:
  "endswith (lower ''sync.html'') ''.html''
   \<and> length (findall html_cell_re demo_html) = 2
   \<and> length (findall html_creating_re demo_html) = 1
   \<and> (\<exists>data. parse_sync_log ''sync.html'' demo_html = Inr data
        \<and> sync_operations data =
            [\<lparr>source = '''', destination = '''',
              files_created = [\<lparr>timestamp = ''2:30:20 PM'',
                                 file_path = ''D:/VideoFile/Proj/test.mov''\<rparr>]\<rparr>])"
proof -
  have h: "endswith (lower ''sync.html'') ''.html''"
    by code_simp
  from parse_html_pairs [OF h, of demo_html]
  obtain data events where p: "parse_sync_log ''sync.html'' demo_html = Inr data"
    and ops: "sync_operations data = [\<lparr>source = '''', destination = '''', files_created = events\<rparr>]"
    and len: "length events = min (length (findall html_cell_re demo_html))
                                  (length (findall html_creating_re demo_html))"
    and nth: "\<forall>n < length events.
           events ! n = \<lparr>timestamp = findall html_cell_re demo_html ! n,
                         file_path = findall html_creating_re demo_html ! n\<rparr>"
    by blast
  from len have l1: "length events = 1"
    by (simp add: demo_html_cells demo_html_paths)
  with nth have "events ! 0 = \<lparr>timestamp = ''2:30:20 PM'', file_path = ''D:/VideoFile/Proj/test.mov''\<rparr>"
    by (simp add: demo_html_cells demo_html_paths)
  with l1 have "events = [\<lparr>timestamp = ''2:30:20 PM'', file_path = ''D:/VideoFile/Proj/test.mov''\<rparr>]"
    by (cases events) auto
  with h p ops show ?thesis
    by (simp add: demo_html_cells demo_html_paths)
qed

section \<open>The handler and its two sinks\<close>

lemma demo_log_parsed: "parse_sync_log ''sync.log'' demo_log = Inr demo_parsed"
  by code_simp

text \<open>
  Claim C8, as stated, has each configured sink attempted whatever happens to the
  other. In \<open>on_created\<close> the CSV sink comes first and \<open>append_to_csv\<close> re-raises; the
  one \<open>except\<close> clause of the handler then ends the processing of the file. With both
  sinks configured and a CSV file that carries a sixth column, \<open>append_to_csv\<close> in
  prepend mode fails with ValueError, the failure is logged, and the sheet callback is
  never invoked.
\<close>

theorem on_created_csv_failure_counterexample:
  "sheets_callback both_sinks \<noteq> None
   \<and> fst (append_to_csv demo_parsed noted_csv True False) = Inl ValueError
   \<and> uploads (on_created both_sinks (\<lambda>path. Inr demo_log) log_event (world0 noted_csv)) = []
   \<and> messages (on_created both_sinks (\<lambda>path. Inr demo_log) log_event (world0 noted_csv))
       = [Detected ''sync.log'', Parsed 1, Failed ''sync.log'' ValueError, Traceback ValueError]"
  by code_simp

text \<open>
  Claim C8, amended. When a run is configured with both sinks, the handler reconciles
  the local CSV sink first and invokes the sheet sink only after the CSV sink has
  succeeded. A failure of the sheet sink is not fatal to the CSV sink or to the run:
  the CSV file is the one \<open>append_to_csv\<close> left, the run is stored, and the failure is
  logged. A failure of the CSV sink is not fatal to the handler, which logs it and
  returns, but the run is then neither stored nor passed to the sheet sink.
\<close>

theorem on_created_sinks:
  assumes accepted: "\<not> is_directory ev"
      "endswith (src_path ev) ''.log'' \<or> endswith (src_path ev) ''.html''"
    and read: "read_file (src_path ev) = Inr content"
    and parsed: "parse_sync_log (src_path ev) content = Inr run"
    and csv: "append_to_csv run (csv_file w) (prepend_mode self) (add_breaks_mode self) = (res, f)"
    and both: "sheets_callback self = Some upload"
  shows "csv_file (on_created self read_file ev w) = f
    \<and> (res = Inr () \<longrightarrow>
          uploads (on_created self read_file ev w) = uploads w @ [run]
          \<and> stored (on_created self read_file ev w) = stored w @ [run]
          \<and> (\<forall>e. upload run = Inl e \<longrightarrow>
                messages (on_created self read_file ev w)
                  = messages w @ [Detected (src_path ev), Parsed (length (sync_operations run)),
                                  Stored, Failed (src_path ev) e, Traceback e]))
    \<and> (\<forall>e. res = Inl e \<longrightarrow>
          uploads (on_created self read_file ev w) = uploads w
          \<and> stored (on_created self read_file ev w) = stored w
          \<and> messages (on_created self read_file ev w)
               = messages w @ [Detected (src_path ev), Parsed (length (sync_operations run)),
                               Failed (src_path ev) e, Traceback e])"
  using assms
  by (cases res; cases "upload run")
     (simp_all add: on_created_def Let_def log_callback_def handle_exception_def)

theorem on_created_sinks_witness:
  "\<not> is_directory log_event
   \<and> (endswith (src_path log_event) ''.log'' \<or> endswith (src_path log_event) ''.html'')
   \<and> sheets_callback failing_sheet = Some (\<lambda>run. Inl RuntimeError)
   \<and> csv_file (on_created failing_sheet (\<lambda>path. Inr demo_log) log_event (world0 None))
        = Some [fieldnames, demo_row]
   \<and> uploads (on_created failing_sheet (\<lambda>path. Inr demo_log) log_event (world0 None))
        = [demo_parsed]"
proof -
  have a: "\<not> is_directory log_event"
    by (simp add: log_event_def)
  have b: "endswith (src_path log_event) ''.log'' \<or> endswith (src_path log_event) ''.html''"
    by code_simp
  have c: "(\<lambda>path. Inr demo_log) (src_path log_event) = (Inr demo_log :: error + string)"
    by simp
  have d: "parse_sync_log (src_path log_event) demo_log = Inr demo_parsed"
    using demo_log_parsed by (simp add: log_event_def)
  have e: "append_to_csv demo_parsed (csv_file (world0 None)) (prepend_mode failing_sheet)
             (add_breaks_mode failing_sheet) = (Inr (), Some [fieldnames, demo_row])"
    by code_simp
  have g: "sheets_callback failing_sheet = Some (\<lambda>run. Inl RuntimeError)"
    by (simp add: failing_sheet_def)
  from on_created_sinks [OF a b c d e g] a b g show ?thesis
    by (simp add: world0_def)
qed

section \<open>What the patterns capture\<close>

lemma plus_rests_elem:
  "r \<in> set (plus_rests c s) \<Longrightarrow> \<exists>cap. s = cap @ r \<and> cap \<noteq> [] \<and> list_all (cls_match c) cap"
proof (induction s)
  case Nil
  then show ?case by simp
next
  case (Cons x xs)
  from Cons.prems have x: "cls_match c x" and r: "r \<in> set (plus_rests c xs) \<or> r = xs"
    by (auto split: if_splits)
  from r show ?case
  proof
    assume "r \<in> set (plus_rests c xs)"
    with Cons.IH obtain cap where "xs = cap @ r" "list_all (cls_match c) cap"
      by blast
    with x have "x # xs = (x # cap) @ r \<and> x # cap \<noteq> [] \<and> list_all (cls_match c) (x # cap)"
      by simp
    then show ?thesis by blast
  next
    assume "r = xs"
    with x have "x # xs = [x] @ r \<and> [x] \<noteq> [] \<and> list_all (cls_match c) [x]"
      by simp
    then show ?thesis by blast
  qed
qed

lemma rmatch_suffix:
  "(s', g') \<in> set (rmatch r (s, g)) \<Longrightarrow> \<exists>p. s = p @ s'"
proof (induction r arbitrary: s g s' g')
  case Eps
  then show ?case by simp
next
  case (Atom c)
  then show ?case by (auto split: list.splits if_splits)
next
  case (Plus c)
  then show ?case using plus_rests_elem by fastforce
next
  case (Seq a b)
  from Seq.prems obtain s1 g1 where a: "(s1, g1) \<in> set (rmatch a (s, g))"
    and b: "(s', g') \<in> set (rmatch b (s1, g1))"
    by auto
  from Seq.IH(1) [OF a] obtain p where "s = p @ s1" by blast
  moreover from Seq.IH(2) [OF b] obtain q where "s1 = q @ s'" by blast
  ultimately have "s = (p @ q) @ s'" by simp
  then show ?case by blast
next
  case (Group r)
  then show ?case by auto
qed

lemma rmatch_groups:
  "(s', g') \<in> set (rmatch r (s, g)) \<Longrightarrow> \<exists>new. g' = g @ new \<and> length new = ngroups r"
proof (induction r arbitrary: s g s' g')
  case Eps
  then show ?case by simp
next
  case (Atom c)
  then show ?case by (auto split: list.splits if_splits)
next
  case (Plus c)
  then show ?case by auto
next
  case (Seq a b)
  from Seq.prems obtain s1 g1 where a: "(s1, g1) \<in> set (rmatch a (s, g))"
    and b: "(s', g') \<in> set (rmatch b (s1, g1))"
    by auto
  from Seq.IH(1) [OF a] obtain n1 where "g1 = g @ n1" "length n1 = ngroups a" by blast
  moreover from Seq.IH(2) [OF b] obtain n2 where "g' = g1 @ n2" "length n2 = ngroups b" by blast
  ultimately have "g' = g @ (n1 @ n2) \<and> length (n1 @ n2) = ngroups (Seq a b)" by simp
  then show ?case by blast
next
  case (Group r)
  from Group.prems obtain g1 where a: "(s', g1) \<in> set (rmatch r (s, g))"
    and g': "g' = g1 @ [take (length s - length s') s]"
    by auto
  from Group.IH [OF a] obtain n1 where "g1 = g @ n1" "length n1 = ngroups r" by blast
  with g' have "g' = g @ (n1 @ [take (length s - length s') s])
      \<and> length (n1 @ [take (length s - length s') s]) = ngroups (Group r)"
    by simp
  then show ?case by blast
qed

lemma ngroups_lit: "ngroups (lit p) = 0"
  by (induction p) (simp_all add: lit_def cat_def)

lemma re_match_elem:
  "re_match r s = Some g \<Longrightarrow> \<exists>rest. (rest, g) \<in> set (rmatch r (s, []))"
  by (auto simp add: re_match_def split: list.splits)

lemma re_search_elem:
  "re_search r s = Some g \<Longrightarrow> \<exists>s' rest. (rest, g) \<in> set (rmatch r (s', []))"
proof (induction s)
  case Nil
  then show ?case using re_match_elem by fastforce
next
  case (Cons c cs)
  then show ?case using re_match_elem by (fastforce split: option.splits)
qed

lemma re_match_length: "re_match r s = Some g \<Longrightarrow> length g = ngroups r"
  using re_match_elem rmatch_groups by fastforce

lemma re_search_length: "re_search r s = Some g \<Longrightarrow> length g = ngroups r"
  using re_search_elem rmatch_groups by fastforce

lemma seq_without_group:
  assumes "ngroups a = 0" and "(rest, g) \<in> set (rmatch (Seq a X) (s, []))"
  shows "\<exists>s1. (rest, g) \<in> set (rmatch X (s1, []))"
proof -
  from assms(2) obtain s1 g1 where a: "(s1, g1) \<in> set (rmatch a (s, []))"
    and b: "(rest, g) \<in> set (rmatch X (s1, g1))"
    by auto
  from rmatch_groups [OF a] assms(1) have "g1 = []" by simp
  with b show ?thesis by blast
qed

lemma seq_group_plus:
  assumes "(rest, g) \<in> set (rmatch (Seq (Group (Plus c)) Y) (s, []))"
  shows "g \<noteq> [] \<and> g ! 0 \<noteq> [] \<and> list_all (cls_match c) (g ! 0)"
proof -
  from assms obtain s1 g1 where a: "(s1, g1) \<in> set (rmatch (Group (Plus c)) (s, []))"
    and b: "(rest, g) \<in> set (rmatch Y (s1, g1))"
    by auto
  from a have s1: "s1 \<in> set (plus_rests c s)" and g1: "g1 = [take (length s - length s1) s]"
    by auto
  from plus_rests_elem [OF s1] obtain cap where cap: "s = cap @ s1" "cap \<noteq> []"
      "list_all (cls_match c) cap"
    by blast
  with g1 have "g1 = [cap]" by simp
  moreover from rmatch_groups [OF b] obtain new where "g = g1 @ new" by blast
  ultimately have "g = cap # new" by simp
  with cap show ?thesis by simp
qed

lemma first_count:
  assumes "(s2, g) \<in> set (rmatch (Seq (Group (Plus c)) Y) (s, []))"
  shows "g ! 0 \<noteq> [] \<and> list_all (cls_match c) (g ! 0)"
  using seq_group_plus [OF assms] by simp

lemma items_count:
  assumes "re_search items_re line = Some g"
  shows "g ! 0 \<noteq> [] \<and> list_all is_digit (g ! 0)"
proof -
  from re_search_elem [OF assms] obtain s' s2
    where m: "(s2, g) \<in> set (rmatch items_re (s', []))" by blast
  let ?Y = "cat [lit '' ('', Group (cat [Plus (DigitOr (CHR ''.'')), lit '' '', Plus Word]), lit '')'']"
  have "items_re = Seq (lit ''Items processed: '') (Seq (Group (Plus Digit)) ?Y)"
    by (simp add: items_re_def cat_def)
  with m have "(s2, g) \<in> set (rmatch (Seq (lit ''Items processed: '')
      (Seq (Group (Plus Digit)) ?Y)) (s', []))"
    by simp
  from seq_without_group [OF ngroups_lit this]
  obtain s1 where "(s2, g) \<in> set (rmatch (Seq (Group (Plus Digit)) ?Y) (s1, []))"
    by blast
  from first_count [OF this] have "g ! 0 \<noteq> []" and "list_all (cls_match Digit) (g ! 0)"
    by blast+
  then show ?thesis
    by (simp add: list_all_iff)
qed


lemma ngroups_date: "ngroups date_re = 0"
  by (simp add: date_re_def cat_def ngroups_lit)

lemma ngroups_clock: "ngroups clock_re = 0"
  by (simp add: clock_re_def cat_def ngroups_lit)

lemma ngroups_time: "ngroups time_re = 0"
  by (simp add: time_re_def cat_def ngroups_lit ngroups_clock)

lemma header_groups: "re_match header_re line = Some g \<Longrightarrow> length g = 3"
  using re_match_length [of header_re line g]
  by (simp add: header_re_def cat_def ngroups_lit ngroups_date ngroups_time)

lemma header_blank: "re_match header_re [] = None"
  by code_simp

lemma py_int_digits: "s \<noteq> [] \<Longrightarrow> list_all is_digit s \<Longrightarrow> \<exists>n. py_int s = Inr n"
  by (simp add: py_int_def)

section \<open>One iteration of the plain-text scan\<close>

lemma summary_total:
  "\<exists>d. summary line data = Inr d \<and> sync_operations d = sync_operations data
      \<and> header_of d = header_of data"
proof (cases "re_search items_re line")
  case None
  then show ?thesis
    by (simp add: summary_def header_of_def split: option.splits)
next
  case (Some g)
  from items_count [OF Some] py_int_digits obtain n where "py_int (g ! 0) = Inr n"
    by blast
  with Some show ?thesis
    by (simp add: summary_def header_of_def split: option.splits)
qed

lemma creating_file_header: "header_of (creating_file line data) = header_of data"
  by (simp add: creating_file_def header_of_def Let_def split: option.splits)


lemma step_progress: "step lines i data = Inr (i', d') \<Longrightarrow> i < i'"
  by (auto simp: step_def Let_def split: if_splits option.splits sum.splits)

lemma step_header:
  assumes "step lines i data = Inr (i', d')"
  shows "header_of d' =
     (case re_match header_re (strip (lines ! i)) of
        Some g \<Rightarrow> (Some (g ! 0), Some (g ! 1), Some (g ! 2))
      | None \<Rightarrow> header_of data)"
proof (cases "strip (lines ! i) = []")
  case True
  with assms show ?thesis
    by (simp add: step_def header_blank)
next
  case False
  show ?thesis
  proof (cases "re_match header_re (strip (lines ! i))")
    case (Some g)
    with assms False show ?thesis
      by (auto simp add: step_def header_of_def)
  next
    case None
    obtain d where d: "summary (strip (lines ! i)) data = Inr d" "header_of d = header_of data"
      using summary_total by blast
    note cf = creating_file_header [unfolded header_of_def, simplified]
    from d assms False None show ?thesis
      by (auto simp add: step_def Let_def cf header_of_def
          split: option.splits sum.splits if_splits)
  qed
qed




section \<open>The header fields\<close>

lemma scan_header_fold:
  "scan lines i data = Inr result \<Longrightarrow>
   header_of result = foldl (header_step lines) (header_of data) (visited lines i data)"
proof (induction lines i data rule: scan.induct)
  case (1 lines i data)
  show ?case
  proof (cases "i < length lines")
    case False
    with "1.prems" show ?thesis
      by (subst visited.simps) (simp add: scan.simps [of lines i data])
  next
    case True
    with "1.prems" obtain i' d' where st: "step lines i data = Inr (i', d')"
      and rest: "scan lines i' d' = Inr result"
      by (subst (asm) scan.simps) (auto split: sum.splits)
    from "1.IH" [OF True st refl rest]
    have "header_of result = foldl (header_step lines) (header_of d') (visited lines i' d')" .
    moreover have "header_of d' = header_step lines (header_of data) i"
      using step_header [OF st] by (simp add: header_step_def)
    moreover have "visited lines i data = i # visited lines i' d'"
      using True st by (subst visited.simps) simp
    ultimately show ?thesis by simp
  qed
qed

lemma header_fold_last:
  "foldl (header_step lines) h ks =
     (if filter (\<lambda>k. header_shaped (lines ! k)) ks = [] then h
      else header_step lines h (last (filter (\<lambda>k. header_shaped (lines ! k)) ks)))"
proof (induction ks rule: rev_induct)
  case Nil
  then show ?case by simp
next
  case (snoc k ks)
  show ?case
  proof (cases "header_shaped (lines ! k)")
    case True
    then show ?thesis
      by (auto simp add: header_step_def header_shaped_def)
  next
    case False
    then have "header_step lines h' k = h'" for h'
      by (simp add: header_step_def header_shaped_def)
    with False snoc show ?thesis by simp
  qed
qed

lemma two_headers_parsed:
  "parse_sync_log ''sync.log'' two_headers
     = Inr (empty_data\<lparr>sync_name := Some ''Second'', date := Some ''9/14/2025'',
                        start_time := Some ''3:00:00 PM''\<rparr>)"
  by code_simp

text \<open>
  Claim C4, as stated, gives the header fields to the first header-shaped line. The
  scan assigns the three fields at every header-shaped line it visits, with no test of
  what they hold: of two header lines the second one stays.
\<close>

theorem parse_sync_log_first_header_counterexample:
  "re_match header_re (strip (splitlines two_headers ! 0))
     = Some [''First'', ''9/13/2025'', ''2:30:15 PM'']
   \<and> parse_sync_log ''sync.log'' two_headers
     = Inr (empty_data\<lparr>sync_name := Some ''Second'', date := Some ''9/14/2025'',
                        start_time := Some ''3:00:00 PM''\<rparr>)"
  by code_simp

text \<open>
  Claim C4, amended. For every plain-text input whose scan visits one or more
  header-shaped lines, \<open>parse_sync_log\<close>, when it returns, has set \<open>sync_name\<close>,
  \<open>date\<close> and \<open>start_time\<close> to exactly the three captured groups of the last such line
  visited: every header-shaped line that the scan visits replaces the three fields.
\<close>

theorem parse_sync_log_last_header:
  assumes plain: "\<not> endswith (lower log_file_path) ''.html''"
    and ok: "parse_sync_log log_file_path content = Inr result"
    and hs: "hs = filter (\<lambda>k. header_shaped (splitlines content ! k))
                    (visited (splitlines content) 0 empty_data)"
    and some: "hs \<noteq> []"
  shows "\<exists>g. re_match header_re (strip (splitlines content ! last hs)) = Some g \<and> length g = 3
    \<and> sync_name result = Some (g ! 0) \<and> date result = Some (g ! 1)
    \<and> start_time result = Some (g ! 2)"
proof -
  let ?lines = "splitlines content"
  from plain ok have "scan ?lines 0 empty_data = Inr result"
    by (simp add: parse_sync_log_def)
  from scan_header_fold [OF this] hs some
  have h: "header_of result = header_step ?lines (header_of empty_data) (last hs)"
    by (simp add: header_fold_last)
  from some have "last hs \<in> set hs" by simp
  moreover have "\<forall>k \<in> set hs. header_shaped (?lines ! k)"
    unfolding hs set_filter by blast
  ultimately have "header_shaped (?lines ! last hs)" by blast
  then obtain g where g: "re_match header_re (strip (?lines ! last hs)) = Some g"
    by (auto simp add: header_shaped_def)
  with h have "header_of result = (Some (g ! 0), Some (g ! 1), Some (g ! 2))"
    by (simp add: header_step_def)
  with g header_groups [OF g] show ?thesis
    by (simp add: header_of_def)
qed

theorem parse_sync_log_last_header_witness:
  "\<not> endswith (lower ''sync.log'') ''.html''
   \<and> filter (\<lambda>k. header_shaped (splitlines two_headers ! k))
        (visited (splitlines two_headers) 0 empty_data) = [0, 1]
   \<and> (\<exists>result. parse_sync_log ''sync.log'' two_headers = Inr result
        \<and> sync_name result = Some ''Second'' \<and> date result = Some ''9/14/2025''
        \<and> start_time result = Some ''3:00:00 PM'')"
proof -
  have a: "\<not> endswith (lower ''sync.log'') ''.html''"
    by code_simp
  obtain result where b: "parse_sync_log ''sync.log'' two_headers = Inr result"
    using two_headers_parsed by blast
  have c: "[0, 1] = filter (\<lambda>k. header_shaped (splitlines two_headers ! k))
        (visited (splitlines two_headers) 0 empty_data)"
    by code_simp
  have d: "re_match header_re (strip (splitlines two_headers ! 1))
     = Some [''Second'', ''9/14/2025'', ''3:00:00 PM'']"
    by code_simp
  from parse_sync_log_last_header [OF a b c] d
  have "sync_name result = Some ''Second'' \<and> date result = Some ''9/14/2025''
        \<and> start_time result = Some ''3:00:00 PM''"
    by auto
  with a b c show ?thesis by simp
qed

section \<open>The folder-pair line\<close>




section \<open>Best-effort parsing\<close>



text \<open>
  A count of commas alone: the comparison pattern matches, \<open>int\<close> is given the empty
  string, and \<open>parse_sync_log\<close> raises ValueError.
\<close>

lemma commas_only_raises: "parse_sync_log ''sync.log'' commas_only = Inl ValueError"
  by code_simp




end
